theory Spec2Isabelle
  imports Main "HOL-Library.Sublist"
begin

section \<open>MountFS: the mount table and the delegating facade of fs/mountfs.py\<close>

text \<open>
  \<^verbatim>\<open>MountFS\<close> maps directories of one namespace onto other filesystems. The
  filesystems it talks to (the mounted ones and the \<^verbatim>\<open>MemoryFS\<close> it creates as
  its default) are external objects: a call to one of them is modelled as a
  request sent to an oracle, and every operation returns, next to its result,
  the list of requests it has sent, in order. Exceptions are the left
  summand of the result.
\<close>

subsection \<open>Strings\<close>

text \<open>Python's \<^verbatim>\<open>s.startswith(p)\<close>, \<^verbatim>\<open>s.endswith(p)\<close> and \<^verbatim>\<open>s.rstrip('/')\<close>.\<close>

definition startswith :: "string \<Rightarrow> string \<Rightarrow> bool" where
  "startswith s p = prefix p s"

definition endswith :: "string \<Rightarrow> string \<Rightarrow> bool" where
  "endswith s p = prefix (rev p) (rev s)"

definition rstrip :: "string \<Rightarrow> string" where
  "rstrip s = rev (dropWhile (\<lambda>c. c = CHR ''/'') (rev s))"

text \<open>Python's \<^verbatim>\<open>s.split('/')\<close> and \<^verbatim>\<open>'/'.join(xs)\<close>.\<close>

fun split_sep :: "string \<Rightarrow> string list" where
  "split_sep [] = [[]]"
| "split_sep (c # cs) =
     (if c = CHR ''/'' then [] # split_sep cs
      else (case split_sep cs of [] \<Rightarrow> [[c]] | w # ws \<Rightarrow> (c # w) # ws))"

fun join_sep :: "string list \<Rightarrow> string" where
  "join_sep [] = []"
| "join_sep [w] = w"
| "join_sep (w # v # ws) = w @ ''/'' @ join_sep (v # ws)"

subsection \<open>Errors, filesystem objects and requests\<close>

datatype error =
    ValueError
  | MountError
  | FilesystemClosed
  | RemoveRootError string
  | IllegalBackReference string
  | BackendError nat

text \<open>
  A filesystem object, compared by identity as Python's \<^verbatim>\<open>is\<close> does:
  the \<^verbatim>\<open>MountFS\<close> itself, or some other filesystem.
\<close>

datatype fsref = Self | Backend nat

type_synonym kwargs = "(string \<times> string) list"

text \<open>The methods that \<^verbatim>\<open>MountFS\<close> calls on another filesystem, with their arguments.\<close>

datatype request =
    Getinfo string "string list"
  | Listdir string
  | Makedir string "nat option" bool
  | Openbin string string int kwargs
  | Remove string
  | Removedir string
  | Getbytes string
  | Gettext string "string option" "string option" "string option"
  | Getsize string
  | Getsyspath string
  | Gettype string
  | Geturl string
  | Hasurl string
  | Isdir string
  | Isfile string
  | Scandir string "string list option"
  | Setinfo string kwargs
  | Validatepath string
  | Open string string int "string option" "string option" "string option" kwargs
  | Setbytes string string
  | Settext string string "string option" "string option" "string option"
  | Makedirs string bool
  | Close

type_synonym call = "fsref \<times> request"

text \<open>
  The world outside the class: what each filesystem answers to each request
  (a result, or the exception it raises, which the class never inspects and
  which is kept here as a number), and the two mode validators of
  \<^verbatim>\<open>fs.mode\<close>, which are not part of the file and are taken as they come (a
  mode they reject raises \<^verbatim>\<open>ValueError\<close>).
\<close>

record 'r env =
  backend :: "fsref \<Rightarrow> request \<Rightarrow> nat + 'r"
  open_mode_ok :: "string \<Rightarrow> bool"
  openbin_mode_ok :: "string \<Rightarrow> bool"

type_synonym 'r outcome = "call list \<times> (error + 'r)"

text \<open>
  A call of a method of another filesystem: an exception raised there
  propagates through the class as it is.
\<close>

definition call_backend :: "'r env \<Rightarrow> fsref \<Rightarrow> request \<Rightarrow> error + 'r" where
  "call_backend env fs rq =
     (case backend env fs rq of Inl e \<Rightarrow> Inl (BackendError e) | Inr r \<Rightarrow> Inr r)"

definition forward :: "'r env \<Rightarrow> fsref \<Rightarrow> request \<Rightarrow> 'r outcome" where
  "forward env fs rq = ([(fs, rq)], call_backend env fs rq)"

definition then_do :: "error + 'a \<Rightarrow> ('a \<Rightarrow> 'r outcome) \<Rightarrow> 'r outcome" where
  "then_do m k = (case m of Inl e \<Rightarrow> ([], Inl e) | Inr x \<Rightarrow> k x)"

definition validate_open_mode :: "'r env \<Rightarrow> string \<Rightarrow> error + unit" where
  "validate_open_mode env mode = (if open_mode_ok env mode then Inr () else Inl ValueError)"

definition validate_openbin_mode :: "'r env \<Rightarrow> string \<Rightarrow> error + unit" where
  "validate_openbin_mode env mode = (if openbin_mode_ok env mode then Inr () else Inl ValueError)"

subsection \<open>Path utilities (fs.path)\<close>

text \<open>
  Modelled from the spec: \<^verbatim>\<open>fs.path.normpath\<close> is imported by the file and not
  part of it. The spec describes the path utilities as pure functions that
  make a path canonical, absolute and separator-terminated, with the
  namespace root being the empty path or \<^verbatim>\<open>/\<close>. The canonical form drops empty
  and \<^verbatim>\<open>.\<close> components, lets \<^verbatim>\<open>..\<close> cancel the component before it, keeps a
  leading separator and leaves no trailing one; a \<^verbatim>\<open>..\<close> with no component
  before it is an illegal back reference. The function \<open>collapse\<close> is its
  loop over the components.
\<close>

fun collapse :: "string list \<Rightarrow> string list \<Rightarrow> string list option" where
  "collapse components [] = Some components"
| "collapse components (component # rest) =
     (if component = ''..'' \<or> component = ''.'' \<or> component = ''''
      then (if component = ''..''
            then (if components = [] then None else collapse (butlast components) rest)
            else collapse components rest)
      else collapse (components @ [component]) rest)"

definition normpath :: "string \<Rightarrow> error + string" where
  "normpath path =
     (if path = '''' \<or> path = ''/'' then Inr path
      else (case collapse [] (split_sep path) of
              None \<Rightarrow> Inl (IllegalBackReference path)
            | Some components \<Rightarrow>
                Inr ((if startswith path ''/'' then ''/'' else '''') @ join_sep components)))"

text \<open>
  Modelled from the spec: \<^verbatim>\<open>fs.path.abspath\<close>, not part of the file, makes a
  path absolute: a path that does not start with the separator gets one in
  front.
\<close>

definition abspath :: "string \<Rightarrow> string" where
  "abspath path = (if \<not> startswith path ''/'' then ''/'' @ path else path)"

text \<open>
  Modelled from the spec: \<^verbatim>\<open>fs.path.forcedir\<close>, not part of the file, makes a
  path separator-terminated: a path that does not end with the separator
  gets one at the end.
\<close>

definition forcedir :: "string \<Rightarrow> string" where
  "forcedir path = (if \<not> endswith path ''/'' then path @ ''/'' else path)"

subsection \<open>The class\<close>

text \<open>
  The fields of a \<^verbatim>\<open>MountFS\<close>: \<^verbatim>\<open>auto_close\<close>, \<^verbatim>\<open>default_fs\<close> and \<^verbatim>\<open>mounts\<close> of
  \<^verbatim>\<open>__init__\<close>, and the closed flag of the base class.
\<close>

record mountfs =
  auto_close :: bool
  default_fs :: fsref
  mounts :: "(string \<times> fsref) list"
  closed :: bool

text \<open>\<^verbatim>\<open>__init__\<close>; the argument \<open>d\<close> is the \<^verbatim>\<open>MemoryFS\<close> it creates.\<close>

definition init :: "bool \<Rightarrow> fsref \<Rightarrow> mountfs" where
  "init ac d = \<lparr>auto_close = ac, default_fs = d, mounts = [], closed = False\<rparr>"

text \<open>
  Modelled from the spec: \<^verbatim>\<open>FS._check\<close> belongs to the base class
  \<^verbatim>\<open>fs.base.FS\<close>, which is not part of the file. By the spec a proxied
  operation fails with the closed-filesystem error if the facade is closed.
\<close>

definition check :: "mountfs \<Rightarrow> error + unit" where
  "check s = (if closed s then Inl FilesystemClosed else Inr ())"

text \<open>
  Modelled from the spec: \<^verbatim>\<open>FS.close\<close> of the base class, not part of the file,
  marks the facade closed.
\<close>

definition super_close :: "mountfs \<Rightarrow> mountfs" where
  "super_close s = s\<lparr>closed := True\<rparr>"

text \<open>
  \<^verbatim>\<open>_delegate\<close>: the loop over \<^verbatim>\<open>self.mounts\<close> returns at the first mount path
  that the normalised path starts with.
\<close>

fun delegate_loop :: "string \<Rightarrow> (string \<times> fsref) list \<Rightarrow> (fsref \<times> string) option" where
  "delegate_loop p [] = None"
| "delegate_loop p ((mount_path, fs) # ms) =
     (if startswith p mount_path
      then Some (fs, rstrip (drop (length mount_path) p))
      else delegate_loop p ms)"

definition delegate :: "mountfs \<Rightarrow> string \<Rightarrow> error + (fsref \<times> string)" where
  "delegate s path =
     (case normpath path of
        Inl e \<Rightarrow> Inl e
      | Inr n \<Rightarrow>
          (case delegate_loop (forcedir (abspath n)) (mounts s) of
             Some r \<Rightarrow> Inr r
           | None \<Rightarrow> Inr (default_fs s, path)))"

text \<open>\<^verbatim>\<open>mount\<close>: the loop that raises \<^verbatim>\<open>MountError\<close>, then the method.\<close>

fun overlaps :: "string \<Rightarrow> (string \<times> fsref) list \<Rightarrow> bool" where
  "overlaps p [] = False"
| "overlaps p ((mount_path, fs) # ms) =
     (if startswith p mount_path then True else overlaps p ms)"

definition mount ::
  "'r env \<Rightarrow> mountfs \<Rightarrow> string \<Rightarrow> fsref \<Rightarrow> mountfs \<times> call list \<times> (error + unit)" where
  "mount env s path fs =
     (if fs = Self then (s, [], Inl ValueError)
      else (case normpath path of
              Inl e \<Rightarrow> (s, [], Inl e)
            | Inr n \<Rightarrow>
                (let p = forcedir (abspath n) in
                 if overlaps p (mounts s) then (s, [], Inl MountError)
                 else (let s' = s\<lparr>mounts := mounts s @ [(p, fs)]\<rparr>;
                           rq = Makedirs p True
                       in (case call_backend env (default_fs s) rq of
                             Inl e \<Rightarrow> (s', [(default_fs s, rq)], Inl e)
                           | Inr r \<Rightarrow> (s', [(default_fs s, rq)], Inr ()))))))"

text \<open>\<^verbatim>\<open>close\<close>: the loop over the mounts, then the method.\<close>

fun close_mounts :: "'r env \<Rightarrow> (string \<times> fsref) list \<Rightarrow> call list \<times> (error + unit)" where
  "close_mounts env [] = ([], Inr ())"
| "close_mounts env ((p, fs) # ms) =
     (case call_backend env fs Close of
        Inl e \<Rightarrow> ([(fs, Close)], Inl e)
      | Inr r \<Rightarrow> (case close_mounts env ms of (tr, res) \<Rightarrow> ((fs, Close) # tr, res)))"

definition close :: "'r env \<Rightarrow> mountfs \<Rightarrow> mountfs \<times> call list \<times> (error + unit)" where
  "close env s =
     (case (if auto_close s
            then (case close_mounts env (mounts s) of
                    (tr, Inl e) \<Rightarrow> (s, tr, Inl e)
                  | (tr, Inr u) \<Rightarrow> (s\<lparr>mounts := []\<rparr>, tr, Inr ()))
            else (s, [], Inr ())) of
        (s1, tr, Inl e) \<Rightarrow> (s1, tr, Inl e)
      | (s1, tr, Inr u) \<Rightarrow>
          (case call_backend env (default_fs s1) Close of
             Inl e \<Rightarrow> (s1, tr @ [(default_fs s1, Close)], Inl e)
           | Inr r \<Rightarrow> (super_close s1, tr @ [(default_fs s1, Close)], Inr ())))"

text \<open>The proxied operations, in the order of the file.\<close>

definition getinfo :: "'r env \<Rightarrow> mountfs \<Rightarrow> string \<Rightarrow> string list \<Rightarrow> 'r outcome" where
  "getinfo env s path namespaces =
     then_do (check s) (\<lambda>u. then_do (delegate s path) (\<lambda>(fs, path').
       forward env fs (Getinfo path' namespaces)))"

definition listdir :: "'r env \<Rightarrow> mountfs \<Rightarrow> string \<Rightarrow> 'r outcome" where
  "listdir env s path =
     then_do (check s) (\<lambda>u. then_do (delegate s path) (\<lambda>(fs, delegate_path).
       forward env fs (Listdir delegate_path)))"

definition makedir :: "'r env \<Rightarrow> mountfs \<Rightarrow> string \<Rightarrow> nat option \<Rightarrow> bool \<Rightarrow> 'r outcome" where
  "makedir env s path permissions recreate =
     then_do (check s) (\<lambda>u. then_do (delegate s path) (\<lambda>(fs, path').
       forward env fs (Makedir path' permissions recreate)))"

definition openbin :: "'r env \<Rightarrow> mountfs \<Rightarrow> string \<Rightarrow> string \<Rightarrow> int \<Rightarrow> kwargs \<Rightarrow> 'r outcome" where
  "openbin env s path mode buffering kw =
     then_do (validate_openbin_mode env mode) (\<lambda>u.
     then_do (check s) (\<lambda>u. then_do (delegate s path) (\<lambda>(fs, path').
       forward env fs (Openbin path' mode (- 1) kw))))"

definition remove :: "'r env \<Rightarrow> mountfs \<Rightarrow> string \<Rightarrow> 'r outcome" where
  "remove env s path =
     then_do (check s) (\<lambda>u. then_do (delegate s path) (\<lambda>(fs, path').
       forward env fs (Remove path')))"

definition removedir :: "'r env \<Rightarrow> mountfs \<Rightarrow> string \<Rightarrow> 'r outcome" where
  "removedir env s path =
     then_do (check s) (\<lambda>u. then_do (normpath path) (\<lambda>path.
       if path = '''' \<or> path = ''/'' then ([], Inl (RemoveRootError path))
       else then_do (delegate s path) (\<lambda>(fs, path').
         forward env fs (Removedir path'))))"

definition getbytes :: "'r env \<Rightarrow> mountfs \<Rightarrow> string \<Rightarrow> 'r outcome" where
  "getbytes env s path =
     then_do (check s) (\<lambda>u. then_do (delegate s path) (\<lambda>(fs, path').
       forward env fs (Getbytes path')))"

definition gettext ::
  "'r env \<Rightarrow> mountfs \<Rightarrow> string \<Rightarrow> string option \<Rightarrow> string option \<Rightarrow> string option \<Rightarrow> 'r outcome" where
  "gettext env s path encoding errors newline =
     then_do (check s) (\<lambda>u. then_do (delegate s path) (\<lambda>(fs, path').
       forward env fs (Gettext path' encoding errors newline)))"

definition getsize :: "'r env \<Rightarrow> mountfs \<Rightarrow> string \<Rightarrow> 'r outcome" where
  "getsize env s path =
     then_do (check s) (\<lambda>u. then_do (delegate s path) (\<lambda>(fs, path').
       forward env fs (Getsize path)))"

definition getsyspath :: "'r env \<Rightarrow> mountfs \<Rightarrow> string \<Rightarrow> 'r outcome" where
  "getsyspath env s path =
     then_do (check s) (\<lambda>u. then_do (delegate s path) (\<lambda>(fs, path').
       forward env fs (Getsyspath path)))"

definition gettype :: "'r env \<Rightarrow> mountfs \<Rightarrow> string \<Rightarrow> 'r outcome" where
  "gettype env s path =
     then_do (check s) (\<lambda>u. then_do (delegate s path) (\<lambda>(fs, path').
       forward env fs (Gettype path')))"

definition geturl :: "'r env \<Rightarrow> mountfs \<Rightarrow> string \<Rightarrow> 'r outcome" where
  "geturl env s path =
     then_do (check s) (\<lambda>u. then_do (delegate s path) (\<lambda>(fs, path').
       forward env fs (Geturl path)))"

definition hasurl :: "'r env \<Rightarrow> mountfs \<Rightarrow> string \<Rightarrow> 'r outcome" where
  "hasurl env s path =
     then_do (check s) (\<lambda>u. then_do (delegate s path) (\<lambda>(fs, path').
       forward env fs (Hasurl path')))"

definition isdir :: "'r env \<Rightarrow> mountfs \<Rightarrow> string \<Rightarrow> 'r outcome" where
  "isdir env s path =
     then_do (check s) (\<lambda>u. then_do (delegate s path) (\<lambda>(fs, path').
       forward env fs (Isdir path')))"

definition isfile :: "'r env \<Rightarrow> mountfs \<Rightarrow> string \<Rightarrow> 'r outcome" where
  "isfile env s path =
     then_do (check s) (\<lambda>u. then_do (delegate s path) (\<lambda>(fs, path').
       forward env fs (Isfile path')))"

definition scandir :: "'r env \<Rightarrow> mountfs \<Rightarrow> string \<Rightarrow> string list option \<Rightarrow> 'r outcome" where
  "scandir env s path namespaces =
     then_do (check s) (\<lambda>u. then_do (delegate s path) (\<lambda>(fs, path').
       forward env fs (Scandir path' namespaces)))"

definition setinfo :: "'r env \<Rightarrow> mountfs \<Rightarrow> string \<Rightarrow> kwargs \<Rightarrow> 'r outcome" where
  "setinfo env s path info =
     then_do (check s) (\<lambda>u. then_do (delegate s path) (\<lambda>(fs, path').
       forward env fs (Setinfo path info)))"

definition validatepath :: "'r env \<Rightarrow> mountfs \<Rightarrow> string \<Rightarrow> 'r outcome" where
  "validatepath env s path =
     then_do (check s) (\<lambda>u. then_do (delegate s path) (\<lambda>(fs, path').
       forward env fs (Validatepath path')))"

definition open_file ::
  "'r env \<Rightarrow> mountfs \<Rightarrow> string \<Rightarrow> string \<Rightarrow> int \<Rightarrow> string option \<Rightarrow> string option \<Rightarrow>
   string option \<Rightarrow> kwargs \<Rightarrow> 'r outcome" where
  "open_file env s path mode buffering encoding errors newline options =
     then_do (validate_open_mode env mode) (\<lambda>u.
     then_do (check s) (\<lambda>u. then_do (delegate s path) (\<lambda>(fs, path').
       forward env fs (Open path' mode buffering encoding errors newline options))))"

definition setbytes :: "'r env \<Rightarrow> mountfs \<Rightarrow> string \<Rightarrow> string \<Rightarrow> 'r outcome" where
  "setbytes env s path contents =
     then_do (check s) (\<lambda>u. then_do (delegate s path) (\<lambda>(fs, path').
       forward env fs (Setbytes path contents)))"

definition settext ::
  "'r env \<Rightarrow> mountfs \<Rightarrow> string \<Rightarrow> string \<Rightarrow> string option \<Rightarrow> string option \<Rightarrow>
   string option \<Rightarrow> 'r outcome" where
  "settext env s path contents encoding errors newline =
     then_do (delegate s path) (\<lambda>(fs, path').
       forward env fs (Settext path' contents encoding errors newline))"

subsection \<open>A concrete world for the examples\<close>

text \<open>Every filesystem answers every request with the value 0; every mode is valid.\<close>

definition env_ok :: "nat env" where
  "env_ok = \<lparr>backend = (\<lambda>fs rq. Inr 0), open_mode_ok = (\<lambda>m. True),
             openbin_mode_ok = (\<lambda>m. True)\<rparr>"

text \<open>The same world, except that closing the filesystem \<open>Backend 1\<close> raises.\<close>

definition env_fail_close :: "nat env" where
  "env_fail_close =
     \<lparr>backend = (\<lambda>fs rq. if fs = Backend 1 \<and> rq = Close then Inl 7 else Inr 0),
      open_mode_ok = (\<lambda>m. True), openbin_mode_ok = (\<lambda>m. True)\<rparr>"

text \<open>The same world as \<open>env_ok\<close>, except that the default filesystem's \<^verbatim>\<open>makedirs\<close> raises.\<close>

definition env_fail_makedirs :: "nat env" where
  "env_fail_makedirs =
     \<lparr>backend = (\<lambda>fs rq. case rq of Makedirs p r \<Rightarrow> Inl 9 | _ \<Rightarrow> Inr 0),
      open_mode_ok = (\<lambda>m. True), openbin_mode_ok = (\<lambda>m. True)\<rparr>"

text \<open>A facade with one filesystem mounted at \<^verbatim>\<open>/data\<close>, and the same facade closed.\<close>

definition fs_data :: mountfs where
  "fs_data = fst (mount env_ok (init True (Backend 0)) ''/data'' (Backend 1))"

definition fs_data_closed :: mountfs where
  "fs_data_closed = fst (close env_ok fs_data)"

text \<open>A facade with two mounts, the first of which fails to close in \<open>env_fail_close\<close>.\<close>

definition fs_two :: mountfs where
  "fs_two = fst (mount env_ok (fst (mount env_ok (init True (Backend 0)) ''/a'' (Backend 1)))
                   ''/b'' (Backend 2))"

text \<open>A facade with a mount under a path and a later mount at that path's parent.\<close>

definition fs_nested :: mountfs where
  "fs_nested = fst (mount env_ok (fst (mount env_ok (init True (Backend 0)) ''/data/cache''
                      (Backend 1))) ''/data'' (Backend 2))"

subsection \<open>Notions used in the statements\<close>

text \<open>
  A sequence of \<^verbatim>\<open>mount\<close> calls, each of which returns normally; the result is
  the facade after the last one.
\<close>

fun mount_all :: "'r env \<Rightarrow> mountfs \<Rightarrow> (string \<times> fsref) list \<Rightarrow> mountfs option" where
  "mount_all env s [] = Some s"
| "mount_all env s ((path, fs) # calls) =
     (case mount env s path fs of
        (s', tr, Inl e) \<Rightarrow> None
      | (s', tr, Inr u) \<Rightarrow> mount_all env s' calls)"

text \<open>
  The form of a path that \<^verbatim>\<open>mount\<close> and \<^verbatim>\<open>_delegate\<close> compare: normalised,
  absolute and separator-terminated.
\<close>

definition normdir :: "string \<Rightarrow> error + string" where
  "normdir path = (case normpath path of Inl e \<Rightarrow> Inl e | Inr n \<Rightarrow> Inr (forcedir (abspath n)))"

text \<open>A mount path as the data model has it: a fixed point of that normalisation.\<close>

definition is_mount_path :: "string \<Rightarrow> bool" where
  "is_mount_path m = (normdir m = Inr m)"

text \<open>
  The mounts are ordered when no mount path starts with the mount path of an
  entry registered before it.
\<close>

fun ordered_mounts :: "(string \<times> fsref) list \<Rightarrow> bool" where
  "ordered_mounts [] = True"
| "ordered_mounts ((m, fs) # ms) =
     ((\<forall>(m', fs') \<in> set ms. \<not> startswith m' m) \<and> ordered_mounts ms)"

text \<open>
  A proper path component, and the path made of a list of components, each
  followed by a separator.
\<close>

definition plain :: "string \<Rightarrow> bool" where
  "plain c = (c \<noteq> [] \<and> CHR ''/'' \<notin> set c \<and> c \<noteq> ''.'' \<and> c \<noteq> ''..'')"

fun dirs :: "string list \<Rightarrow> string" where
  "dirs [] = []"
| "dirs (c # cs) = c @ ''/'' @ dirs cs"

section \<open>Properties\<close>

subsection \<open>Splitting, joining and normalising\<close>

lemma split_sep_nonempty: "split_sep s \<noteq> []"
  by (induction s) (auto split: list.splits)

lemma split_sep_no_sep: "w \<in> set (split_sep s) \<Longrightarrow> CHR ''/'' \<notin> set w"
  by (induction s arbitrary: w) (auto split: if_splits list.splits)

lemma split_sep_plain_word: "CHR ''/'' \<notin> set w \<Longrightarrow> split_sep w = [w]"
  by (induction w) auto

lemma split_sep_word_sep: "CHR ''/'' \<notin> set w \<Longrightarrow> split_sep (w @ CHR ''/'' # x) = w # split_sep x"
  by (induction w) (auto simp: split_sep_nonempty split: list.splits)

lemma dirs_append: "dirs (as @ bs) = dirs as @ dirs bs"
  by (induction as) auto

lemma dirs_join: "cs \<noteq> [] \<Longrightarrow> dirs cs = join_sep cs @ ''/''"
  by (induction cs rule: join_sep.induct) auto

lemma split_sep_join:
  "cs \<noteq> [] \<Longrightarrow> \<forall>c \<in> set cs. CHR ''/'' \<notin> set c \<Longrightarrow> split_sep (join_sep cs) = cs"
  by (induction cs rule: join_sep.induct) (auto simp: split_sep_plain_word split_sep_word_sep)

lemma split_sep_dirs:
  "\<forall>c \<in> set cs. CHR ''/'' \<notin> set c \<Longrightarrow> split_sep (dirs cs @ x) = cs @ split_sep x"
  by (induction cs) (auto simp: split_sep_word_sep)

lemma collapse_keep: "plain c \<Longrightarrow> collapse acc (c # ws) = collapse (acc @ [c]) ws"
  by (auto simp: plain_def)

lemma collapse_plain_append:
  "\<forall>c \<in> set cs. plain c \<Longrightarrow> collapse acc (cs @ ws) = collapse (acc @ cs) ws"
  by (induction cs arbitrary: acc) (simp_all add: collapse_keep del: collapse.simps)

lemma collapse_plain:
  "collapse acc ws = Some cs \<Longrightarrow> \<forall>c \<in> set acc. plain c \<Longrightarrow>
   \<forall>w \<in> set ws. CHR ''/'' \<notin> set w \<Longrightarrow> \<forall>c \<in> set cs. plain c"
proof (induction ws arbitrary: acc)
  case Nil
  then show ?case by simp
next
  case (Cons w ws)
  have rest: "\<forall>w \<in> set ws. CHR ''/'' \<notin> set w" and w: "CHR ''/'' \<notin> set w"
    using Cons.prems(3) by simp_all
  consider (up) "w = ''..''" | (skip) "w \<noteq> ''..''" "w = ''.'' \<or> w = ''''"
    | (keep) "w \<noteq> ''..''" "w \<noteq> ''.''" "w \<noteq> ''''"
    by blast
  then show ?case
  proof cases
    case up
    with Cons.prems(1) have c: "collapse (butlast acc) ws = Some cs"
      by (simp split: if_splits)
    have "\<forall>c \<in> set (butlast acc). plain c"
      using Cons.prems(2) by (meson in_set_butlastD)
    from Cons.IH [OF c this rest] show ?thesis .
  next
    case skip
    with Cons.prems(1) have c: "collapse acc ws = Some cs"
      by (simp split: if_splits)
    from Cons.IH [OF c Cons.prems(2) rest] show ?thesis .
  next
    case keep
    with Cons.prems(1) have c: "collapse (acc @ [w]) ws = Some cs"
      by simp
    have "plain w"
      using keep w by (simp add: plain_def)
    with Cons.prems(2) have "\<forall>c \<in> set (acc @ [w]). plain c"
      by simp
    from Cons.IH [OF c this rest] show ?thesis .
  qed
qed

lemma plain_nonempty: "plain c \<Longrightarrow> \<exists>x xs. c = x # xs \<and> x \<noteq> CHR ''/''"
  by (cases c) (auto simp: plain_def)

lemma plain_last: "plain c \<Longrightarrow> last c \<noteq> CHR ''/''"
  by (cases c rule: rev_cases) (auto simp: plain_def)

lemma join_sep_head:
  "cs \<noteq> [] \<Longrightarrow> \<forall>c \<in> set cs. plain c \<Longrightarrow> \<exists>x xs. join_sep cs = x # xs \<and> x \<noteq> CHR ''/''"
proof (induction cs rule: join_sep.induct)
  case 1
  then show ?case by simp
next
  case (2 w)
  then show ?case using plain_nonempty [of w] by simp
next
  case (3 w v ws)
  then show ?case using plain_nonempty [of w] by auto
qed

lemma join_sep_last:
  "cs \<noteq> [] \<Longrightarrow> \<forall>c \<in> set cs. plain c \<Longrightarrow> join_sep cs \<noteq> [] \<and> last (join_sep cs) \<noteq> CHR ''/''"
proof (induction cs rule: join_sep.induct)
  case 1
  then show ?case by simp
next
  case (2 w)
  then show ?case using plain_last [of w] plain_nonempty [of w] by auto
next
  case (3 w v ws)
  then show ?case by simp
qed

lemma plain_no_sep: "\<forall>c \<in> set cs. plain c \<Longrightarrow> \<forall>c \<in> set cs. CHR ''/'' \<notin> set c"
  by (simp add: plain_def)

lemma collapse_plain_all: "\<forall>c \<in> set cs. plain c \<Longrightarrow> collapse [] cs = Some cs"
  using collapse_plain_append [of cs "[]" "[]"] by simp

lemma collapse_empty_first: "collapse acc ([] # ws) = collapse acc ws"
  by simp

text \<open>The normal form: a list of proper components, joined, with or without a leading separator.\<close>

lemma normpath_form:
  assumes "normpath p = Inr n"
  shows "\<exists>cs. (\<forall>c \<in> set cs. plain c) \<and> (n = join_sep cs \<or> n = CHR ''/'' # join_sep cs)"
proof (cases "p = [] \<or> p = ''/''")
  case True
  with assms have "n = join_sep [] \<or> n = CHR ''/'' # join_sep []"
    by (auto simp: normpath_def)
  then show ?thesis
    by (metis empty_iff list.set(1))
next
  case False
  with assms obtain cs where c: "collapse [] (split_sep p) = Some cs"
    and n: "n = (if startswith p ''/'' then ''/'' else []) @ join_sep cs"
    by (auto simp: normpath_def split: option.splits)
  have "\<forall>c \<in> set cs. plain c"
    using collapse_plain [OF c] split_sep_no_sep by simp
  with n show ?thesis
    by (cases "startswith p ''/''") auto
qed

lemma normpath_join:
  assumes "\<forall>c \<in> set cs. plain c"
  shows "normpath (join_sep cs) = Inr (join_sep cs)"
proof (cases "cs = []")
  case True
  then show ?thesis by (simp add: normpath_def)
next
  case False
  from join_sep_head [OF False assms] obtain x xs where j: "join_sep cs = x # xs" "x \<noteq> CHR ''/''"
    by blast
  have s: "split_sep (join_sep cs) = cs"
    using split_sep_join [OF False] plain_no_sep [OF assms] by simp
  have "collapse [] (split_sep (join_sep cs)) = Some cs"
    by (simp only: s collapse_plain_all [OF assms])
  moreover have "join_sep cs \<noteq> []" "join_sep cs \<noteq> ''/''" "\<not> startswith (join_sep cs) ''/''"
    using j by (simp_all add: startswith_def)
  ultimately show ?thesis
    by (simp add: normpath_def)
qed

lemma normpath_sep_join:
  assumes "\<forall>c \<in> set cs. plain c"
  shows "normpath (CHR ''/'' # join_sep cs) = Inr (CHR ''/'' # join_sep cs)"
proof (cases "cs = []")
  case True
  then show ?thesis by (simp add: normpath_def)
next
  case False
  have s: "split_sep (join_sep cs) = cs"
    using split_sep_join [OF False] plain_no_sep [OF assms] by simp
  have "collapse [] (split_sep (CHR ''/'' # join_sep cs)) = Some cs"
    by (simp add: s collapse_plain_all [OF assms] del: collapse.simps add: collapse_empty_first)
  moreover have "join_sep cs \<noteq> []"
    using join_sep_last [OF False assms] by simp
  ultimately show ?thesis
    by (simp add: normpath_def startswith_def)
qed

lemma normpath_idem: "normpath p = Inr n \<Longrightarrow> normpath n = Inr n"
  using normpath_form [of p n] normpath_join normpath_sep_join by auto

text \<open>The directory form of a normal form: a separator, then every component with its own.\<close>

lemma forcedir_abspath_join:
  assumes "\<forall>c \<in> set cs. plain c"
  shows "forcedir (abspath (join_sep cs)) = CHR ''/'' # dirs cs"
    and "forcedir (abspath (CHR ''/'' # join_sep cs)) = CHR ''/'' # dirs cs"
proof -
  have "forcedir (abspath (join_sep cs)) = CHR ''/'' # dirs cs \<and>
        forcedir (abspath (CHR ''/'' # join_sep cs)) = CHR ''/'' # dirs cs"
  proof (cases "cs = []")
    case True
    then show ?thesis
      by (simp add: forcedir_def abspath_def startswith_def endswith_def)
  next
    case False
    from join_sep_head [OF False assms] obtain x xs where j: "join_sep cs = x # xs" "x \<noteq> CHR ''/''"
      by blast
    have l: "join_sep cs \<noteq> []" "last (join_sep cs) \<noteq> CHR ''/''"
      using join_sep_last [OF False assms] by simp_all
    have a: "abspath (join_sep cs) = CHR ''/'' # join_sep cs"
      "abspath (CHR ''/'' # join_sep cs) = CHR ''/'' # join_sep cs"
      using j by (simp_all add: abspath_def startswith_def)
    have "\<not> endswith (CHR ''/'' # join_sep cs) ''/''"
      using l by (cases "join_sep cs" rule: rev_cases) (simp_all add: endswith_def)
    then have "forcedir (CHR ''/'' # join_sep cs) = CHR ''/'' # dirs cs"
      by (simp add: forcedir_def dirs_join [OF False])
    with a show ?thesis by simp
  qed
  then show "forcedir (abspath (join_sep cs)) = CHR ''/'' # dirs cs"
    and "forcedir (abspath (CHR ''/'' # join_sep cs)) = CHR ''/'' # dirs cs"
    by simp_all
qed

lemma normdir_form:
  assumes "normpath p = Inr n"
  shows "\<exists>cs. (\<forall>c \<in> set cs. plain c) \<and> forcedir (abspath n) = CHR ''/'' # dirs cs"
  using normpath_form [OF assms] forcedir_abspath_join by metis

lemma normpath_dirs:
  assumes "\<forall>c \<in> set cs. plain c"
  shows "normpath (CHR ''/'' # dirs cs) = Inr (CHR ''/'' # join_sep cs)"
proof (cases "cs = []")
  case True
  then show ?thesis by (simp add: normpath_def)
next
  case False
  have "split_sep (CHR ''/'' # dirs cs) = [] # cs @ [[]]"
    using split_sep_dirs [OF plain_no_sep [OF assms], of "[]"] by simp
  moreover have "collapse [] ([] # cs @ [[]]) = Some cs"
    using collapse_plain_append [OF assms, of "[]" "[[]]"] by simp
  moreover have "dirs cs \<noteq> []"
    using False by (cases cs) simp_all
  ultimately show ?thesis
    by (simp add: normpath_def startswith_def)
qed

lemma is_mount_path_dirs: "\<forall>c \<in> set cs. plain c \<Longrightarrow> is_mount_path (CHR ''/'' # dirs cs)"
  by (simp add: is_mount_path_def normdir_def normpath_dirs forcedir_abspath_join)

lemma is_mount_path_normdir: "normpath p = Inr n \<Longrightarrow> is_mount_path (forcedir (abspath n))"
  using normdir_form [of p n] is_mount_path_dirs by auto

lemma is_mount_path_form:
  "is_mount_path m \<Longrightarrow> \<exists>cs. (\<forall>c \<in> set cs. plain c) \<and> m = CHR ''/'' # dirs cs"
  using normdir_form by (fastforce simp: is_mount_path_def normdir_def split: sum.splits)

subsection \<open>The example facades\<close>

lemmas path_defs = normpath_def abspath_def forcedir_def startswith_def endswith_def rstrip_def

lemma fs_data_eq:
  "fs_data = \<lparr>auto_close = True, default_fs = Backend 0, mounts = [(''/data/'', Backend 1)],
      closed = False\<rparr>"
  by (simp add: fs_data_def mount_def init_def env_ok_def call_backend_def path_defs Let_def)

lemma fs_data_open: "closed fs_data = False"
  by (simp add: fs_data_eq)

lemma fs_data_closed_eq:
  "fs_data_closed = \<lparr>auto_close = True, default_fs = Backend 0, mounts = [], closed = True\<rparr>"
  by (simp add: fs_data_closed_def fs_data_eq close_def super_close_def env_ok_def
      call_backend_def)

lemma delegate_data_x: "delegate fs_data ''/data/x'' = Inr (Backend 1, ''x'')"
  by (simp add: fs_data_eq delegate_def path_defs)

lemma delegate_closed_a: "delegate fs_data_closed ''/a.txt'' = Inr (Backend 0, ''/a.txt'')"
  by (simp add: fs_data_closed_eq delegate_def path_defs)

lemma fs_nested_eq:
  "fs_nested = \<lparr>auto_close = True, default_fs = Backend 0,
     mounts = [(''/data/cache/'', Backend 1), (''/data/'', Backend 2)], closed = False\<rparr>"
  by (simp add: fs_nested_def mount_def init_def env_ok_def call_backend_def path_defs Let_def)

lemma fs_nested_reached:
  "mount_all env_ok (init True (Backend 0)) [(''/data/cache'', Backend 1), (''/data'', Backend 2)] =
     Some fs_nested"
  by (simp add: fs_nested_eq mount_def init_def env_ok_def call_backend_def path_defs Let_def)

lemma delegate_nested_f: "delegate fs_nested ''/data/cache/f'' = Inr (Backend 1, ''f'')"
  by (simp add: fs_nested_eq delegate_def path_defs)

subsection \<open>Forwarding\<close>

text \<open>
  Claim C1: every proxied operation forwards the relative path that
  resolution produced, never the caller's path. With a filesystem mounted at
  \<^verbatim>\<open>/data\<close>, the path \<^verbatim>\<open>/data/x\<close> resolves to that filesystem and \<^verbatim>\<open>x\<close>, and
  \<^verbatim>\<open>listdir\<close> forwards \<^verbatim>\<open>x\<close>; but \<^verbatim>\<open>getsize\<close>, \<^verbatim>\<open>getsyspath\<close>, \<^verbatim>\<open>geturl\<close>,
  \<^verbatim>\<open>setinfo\<close> and \<^verbatim>\<open>setbytes\<close> forward \<^verbatim>\<open>/data/x\<close>: they compute the relative
  path and then pass the argument they were given.
\<close>

theorem getsize_forwards_original_path:
  "delegate fs_data ''/data/x'' = Inr (Backend 1, ''x'') \<and>
   listdir env_ok fs_data ''/data/x'' = ([(Backend 1, Listdir ''x'')], Inr 0) \<and>
   getsize env_ok fs_data ''/data/x'' = ([(Backend 1, Getsize ''/data/x'')], Inr 0) \<and>
   getsyspath env_ok fs_data ''/data/x'' = ([(Backend 1, Getsyspath ''/data/x'')], Inr 0) \<and>
   geturl env_ok fs_data ''/data/x'' = ([(Backend 1, Geturl ''/data/x'')], Inr 0) \<and>
   setinfo env_ok fs_data ''/data/x'' [] = ([(Backend 1, Setinfo ''/data/x'' [])], Inr 0) \<and>
   setbytes env_ok fs_data ''/data/x'' ''b'' = ([(Backend 1, Setbytes ''/data/x'' ''b'')], Inr 0)"
  by (simp add: getsize_def getsyspath_def geturl_def setinfo_def setbytes_def listdir_def
      delegate_data_x fs_data_open then_do_def check_def forward_def call_backend_def env_ok_def)

text \<open>
  Claim C2: after \<^verbatim>\<open>close()\<close> with \<^verbatim>\<open>auto_close\<close>, every proxied operation,
  \<^verbatim>\<open>settext\<close> included, fails with the closed-filesystem error raised by the
  facade, and the mount table is empty. On the closed facade the table is
  empty and \<^verbatim>\<open>gettext\<close> fails so without a call to any filesystem; but
  \<^verbatim>\<open>settext\<close>, the one operation without the check, resolves the path and
  calls the default filesystem, whose answer it returns: a result, or an
  error of that filesystem, never the error of the facade.
\<close>

theorem settext_after_close_reaches_backend:
  "auto_close fs_data \<and> fs_data_closed = fst (close env_ok fs_data) \<and>
   closed fs_data_closed \<and> mounts fs_data_closed = [] \<and>
   gettext env fs_data_closed ''/a.txt'' None None None = ([], Inl FilesystemClosed) \<and>
   settext env fs_data_closed ''/a.txt'' ''hi'' (Some ''utf-8'') None None =
     ([(Backend 0, Settext ''/a.txt'' ''hi'' (Some ''utf-8'') None None)],
      call_backend env (Backend 0) (Settext ''/a.txt'' ''hi'' (Some ''utf-8'') None None)) \<and>
   snd (settext env fs_data_closed ''/a.txt'' ''hi'' (Some ''utf-8'') None None) \<noteq>
     Inl FilesystemClosed \<and>
   settext env_ok fs_data_closed ''/a.txt'' ''hi'' (Some ''utf-8'') None None =
     ([(Backend 0, Settext ''/a.txt'' ''hi'' (Some ''utf-8'') None None)], Inr 0)"
proof -
  have "auto_close fs_data"
    by (simp add: fs_data_eq)
  moreover have "closed fs_data_closed" "mounts fs_data_closed = []"
    by (simp_all add: fs_data_closed_eq)
  moreover have "gettext env fs_data_closed ''/a.txt'' None None None = ([], Inl FilesystemClosed)"
    by (simp add: gettext_def then_do_def check_def fs_data_closed_eq)
  moreover have s: "settext env' fs_data_closed ''/a.txt'' ''hi'' (Some ''utf-8'') None None =
     ([(Backend 0, Settext ''/a.txt'' ''hi'' (Some ''utf-8'') None None)],
      call_backend env' (Backend 0) (Settext ''/a.txt'' ''hi'' (Some ''utf-8'') None None))"
    for env' :: "'b env"
    by (simp add: settext_def then_do_def delegate_closed_a forward_def)
  moreover have "snd (settext env fs_data_closed ''/a.txt'' ''hi'' (Some ''utf-8'') None None) \<noteq>
     Inl FilesystemClosed"
    by (simp add: s call_backend_def split: sum.splits)
  moreover have "settext env_ok fs_data_closed ''/a.txt'' ''hi'' (Some ''utf-8'') None None =
     ([(Backend 0, Settext ''/a.txt'' ''hi'' (Some ''utf-8'') None None)], Inr 0)"
    by (simp add: settext_def then_do_def delegate_closed_a forward_def call_backend_def env_ok_def)
  ultimately show ?thesis
    by (simp add: fs_data_closed_def)
qed

text \<open>
  Claim C9: every proxied operation forwards the caller's arguments
  unchanged; \<^verbatim>\<open>openbin\<close> called with buffering \<open>b\<close> calls the filesystem's
  \<^verbatim>\<open>openbin\<close> with buffering \<open>b\<close>. Called with buffering 4096, \<^verbatim>\<open>openbin\<close>
  forwards buffering -1, where \<^verbatim>\<open>open\<close> forwards 4096.
\<close>

theorem openbin_drops_buffering:
  "openbin env_ok fs_data ''/data/x'' ''rb'' 4096 [] =
     ([(Backend 1, Openbin ''x'' ''rb'' (- 1) [])], Inr 0) \<and>
   open_file env_ok fs_data ''/data/x'' ''rb'' 4096 None None None [] =
     ([(Backend 1, Open ''x'' ''rb'' 4096 None None None [])], Inr 0)"
  by (simp add: openbin_def open_file_def validate_openbin_mode_def validate_open_mode_def
      delegate_data_x fs_data_open then_do_def check_def forward_def call_backend_def env_ok_def)

subsection \<open>Resolution\<close>

lemma delegate_loop_None:
  "(delegate_loop p ms = None) = (\<forall>(m, fs) \<in> set ms. \<not> startswith p m)"
  by (induction ms) (auto split: if_splits)

lemma overlaps_iff: "overlaps p ms = (\<exists>(m, fs) \<in> set ms. startswith p m)"
  by (induction ms) auto

text \<open>
  Claim C5: for a path whose normalised form is under no registered mount
  path, \<^verbatim>\<open>_delegate\<close> returns the default filesystem and the caller's path as
  it was given, neither normalised nor made relative.
\<close>

theorem delegate_unmounted_default:
  assumes "normpath path = Inr n"
    and "\<forall>(mount_path, fs) \<in> set (mounts s). \<not> startswith (forcedir (abspath n)) mount_path"
  shows "delegate s path = Inr (default_fs s, path)"
proof -
  have "delegate_loop (forcedir (abspath n)) (mounts s) = None"
    using assms(2) by (simp add: delegate_loop_None)
  with assms(1) show ?thesis
    by (simp add: delegate_def)
qed

theorem delegate_unmounted_default_witness:
  "normpath ''/readme.txt'' = Inr ''/readme.txt'' \<and>
   mounts fs_data = [(''/data/'', Backend 1)] \<and>
   \<not> startswith (forcedir (abspath ''/readme.txt'')) ''/data/'' \<and>
   delegate fs_data ''/readme.txt'' = Inr (Backend 0, ''/readme.txt'')"
proof -
  have n: "normpath ''/readme.txt'' = Inr ''/readme.txt''"
    by (simp add: path_defs)
  have m: "\<forall>(mount_path, fs) \<in> set (mounts fs_data).
      \<not> startswith (forcedir (abspath ''/readme.txt'')) mount_path"
    by (simp add: fs_data_eq path_defs)
  have "\<not> startswith (forcedir (abspath ''/readme.txt'')) ''/data/''"
    by (simp add: path_defs)
  with delegate_unmounted_default [OF n m] n show ?thesis
    by (simp add: fs_data_eq)
qed

subsection \<open>Prefixes of directory paths\<close>

lemma prefix_component:
  "CHR ''/'' \<notin> set a \<Longrightarrow> CHR ''/'' \<notin> set b \<Longrightarrow>
   prefix (a @ CHR ''/'' # x) (b @ CHR ''/'' # y) \<Longrightarrow> a = b \<and> prefix x y"
proof (induction a arbitrary: b)
  case Nil
  then show ?case by (cases b) auto
next
  case (Cons c a)
  then show ?case by (cases b) auto
qed

lemma prefix_dirs:
  "\<forall>c \<in> set ms. plain c \<Longrightarrow> \<forall>c \<in> set qs. plain c \<Longrightarrow> prefix (dirs ms) (dirs qs) \<Longrightarrow>
   \<exists>rest. qs = ms @ rest"
proof (induction ms arbitrary: qs)
  case Nil
  then show ?case by simp
next
  case (Cons m ms)
  show ?case
  proof (cases qs)
    case Nil
    with Cons.prems(3) show ?thesis by simp
  next
    case (Cons q qs')
    have "CHR ''/'' \<notin> set m" "CHR ''/'' \<notin> set q"
      using Cons.prems(1,2) Cons by (simp_all add: plain_def)
    with Cons.prems(3) Cons have "m = q \<and> prefix (dirs ms) (dirs qs')"
      using prefix_component [of m q "dirs ms" "dirs qs'"] by simp
    moreover from this obtain rest where "qs' = ms @ rest"
      using Cons.IH [of qs'] Cons.prems(1,2) Cons by auto
    ultimately show ?thesis
      using Cons by simp
  qed
qed

lemma rstrip_sep: "rstrip (x @ ''/'') = rstrip x"
  by (simp add: rstrip_def)

lemma rstrip_id: "x = [] \<or> last x \<noteq> CHR ''/'' \<Longrightarrow> rstrip x = x"
  by (cases x rule: rev_cases) (simp_all add: rstrip_def)

lemma rstrip_no_trailing: "\<not> endswith (rstrip s) ''/''"
proof -
  have "\<not> prefix ''/'' (dropWhile (\<lambda>c. c = CHR ''/'') xs)" for xs
    by (induction xs) auto
  then show ?thesis
    by (simp add: endswith_def rstrip_def)
qed

lemma rstrip_dirs: "\<forall>c \<in> set cs. plain c \<Longrightarrow> rstrip (dirs cs) = join_sep cs"
proof (cases "cs = []")
  case True
  then show ?thesis by (simp add: rstrip_def)
next
  case False
  assume "\<forall>c \<in> set cs. plain c"
  from join_sep_last [OF False this] show ?thesis
    by (simp add: dirs_join [OF False] rstrip_sep rstrip_id)
qed

lemma dirs_join_append: "rest \<noteq> [] \<Longrightarrow> dirs ms @ join_sep rest = join_sep (ms @ rest)"
proof (induction ms)
  case Nil
  then show ?case by simp
next
  case (Cons m ms)
  then obtain v vs where "ms @ rest = v # vs"
    by (cases "ms @ rest") auto
  with Cons show ?case by simp
qed

lemma forcedir_dirs: "forcedir (CHR ''/'' # dirs cs) = CHR ''/'' # dirs cs"
proof (cases "cs = []")
  case True
  then show ?thesis by (simp add: forcedir_def endswith_def)
next
  case False
  then show ?thesis by (simp add: dirs_join [OF False] forcedir_def endswith_def)
qed

lemma forcedir_sep_join:
  assumes "cs \<noteq> []" and "\<forall>c \<in> set cs. plain c"
  shows "forcedir (CHR ''/'' # join_sep cs) = CHR ''/'' # dirs cs"
proof -
  have "join_sep cs \<noteq> []" "last (join_sep cs) \<noteq> CHR ''/''"
    using join_sep_last [OF assms] by simp_all
  then have "\<not> endswith (CHR ''/'' # join_sep cs) ''/''"
    by (cases "join_sep cs" rule: rev_cases) (simp_all add: endswith_def)
  then show ?thesis
    by (simp add: forcedir_def dirs_join [OF assms(1)])
qed

text \<open>The loop of \<^verbatim>\<open>_delegate\<close> returns at the first entry that matches.\<close>

lemma delegate_loop_find:
  "delegate_loop p ms =
     (case find (\<lambda>(m, fs). startswith p m) ms of
        None \<Rightarrow> None
      | Some (m, fs) \<Rightarrow> Some (fs, rstrip (drop (length m) p)))"
  by (induction ms) auto

text \<open>
  What a mounted filesystem is given: with the mount path \<open>/ms/\<close> and the
  normalised path \<open>/ms/rest/\<close>, the components \<open>rest\<close> joined.
\<close>

lemma relative_path:
  assumes ms: "\<forall>c \<in> set ms. plain c" and qs: "\<forall>c \<in> set qs. plain c"
    and pre: "startswith (CHR ''/'' # dirs qs) (CHR ''/'' # dirs ms)"
    and rel_def: "rel = rstrip (drop (length (CHR ''/'' # dirs ms)) (CHR ''/'' # dirs qs))"
  shows "\<not> startswith rel (CHR ''/'' # dirs ms)"
    and "forcedir ((CHR ''/'' # dirs ms) @ rel) = CHR ''/'' # dirs qs"
    and "normdir ((CHR ''/'' # dirs ms) @ rel) = Inr (CHR ''/'' # dirs qs)"
proof -
  from pre obtain rest where rest: "qs = ms @ rest"
    using prefix_dirs [OF ms qs] by (auto simp: startswith_def)
  with qs have pr: "\<forall>c \<in> set rest. plain c"
    by simp
  have rel: "rel = join_sep rest"
    by (simp add: rel_def rest dirs_append rstrip_dirs [OF pr])
  show "\<not> startswith rel (CHR ''/'' # dirs ms)"
  proof (cases "rest = []")
    case True
    then show ?thesis by (simp add: rel startswith_def)
  next
    case False
    from join_sep_head [OF False pr] show ?thesis
      by (auto simp: rel startswith_def)
  qed
  show "forcedir ((CHR ''/'' # dirs ms) @ rel) = CHR ''/'' # dirs qs"
  proof (cases "rest = []")
    case True
    then show ?thesis by (simp add: rel rest forcedir_dirs)
  next
    case False
    then have "ms @ rest \<noteq> []" by simp
    from forcedir_sep_join [OF this] qs show ?thesis
      by (simp add: rel rest dirs_join_append [OF False])
  qed
  show "normdir ((CHR ''/'' # dirs ms) @ rel) = Inr (CHR ''/'' # dirs qs)"
  proof (cases "rest = []")
    case True
    then show ?thesis
      using normpath_dirs [OF ms] forcedir_abspath_join(2) [OF ms]
      by (simp add: rel rest normdir_def)
  next
    case False
    have "normpath (CHR ''/'' # join_sep qs) = Inr (CHR ''/'' # join_sep qs)"
      by (rule normpath_sep_join [OF qs])
    with forcedir_abspath_join(2) [OF qs] show ?thesis
      by (simp add: rel rest normdir_def dirs_join_append [OF False])
  qed
qed

text \<open>
  Claim C4, as stated: for every mount \<open>(M, B)\<close> of the table and every path
  whose normalised, separator-terminated form starts with \<open>M\<close>, \<^verbatim>\<open>_delegate\<close>
  yields \<open>(B, suffix)\<close> with \<open>M\<close> followed by \<open>suffix\<close> equal to the path after
  normalisation. Mounting at \<^verbatim>\<open>/data/cache\<close> and then at \<^verbatim>\<open>/data\<close> succeeds
  twice; the normalised form of \<^verbatim>\<open>/data/cache/f\<close> starts with the second mount
  path \<^verbatim>\<open>/data/\<close>, but \<^verbatim>\<open>_delegate\<close> returns the first filesystem with \<^verbatim>\<open>f\<close>,
  not the second, and \<^verbatim>\<open>/data/\<close> followed by \<^verbatim>\<open>f\<close> is another path.
\<close>

theorem delegate_mounted_counterexample:
  "mount_all env_ok (init True (Backend 0)) [(''/data/cache'', Backend 1), (''/data'', Backend 2)] =
     Some fs_nested \<and>
   mounts fs_nested = [(''/data/cache/'', Backend 1), (''/data/'', Backend 2)] \<and>
   is_mount_path ''/data/cache/'' \<and> is_mount_path ''/data/'' \<and>
   normpath ''/data/cache/f'' = Inr ''/data/cache/f'' \<and>
   startswith (forcedir (abspath ''/data/cache/f'')) ''/data/'' \<and>
   delegate fs_nested ''/data/cache/f'' = Inr (Backend 1, ''f'') \<and>
   Backend 1 \<noteq> Backend 2 \<and>
   normdir (''/data/'' @ ''f'') = Inr ''/data/f/'' \<and>
   normdir ''/data/cache/f'' = Inr ''/data/cache/f/'' \<and>
   normdir (''/data/'' @ ''f'') \<noteq> normdir ''/data/cache/f''"
proof -
  have "mounts fs_nested = [(''/data/cache/'', Backend 1), (''/data/'', Backend 2)]"
    by (simp add: fs_nested_eq)
  moreover have "is_mount_path ''/data/cache/''" "is_mount_path ''/data/''"
    by (simp_all add: is_mount_path_def normdir_def path_defs)
  moreover have "normpath ''/data/cache/f'' = Inr ''/data/cache/f''"
    by (simp add: path_defs)
  moreover have "startswith (forcedir (abspath ''/data/cache/f'')) ''/data/''"
    by (simp add: path_defs)
  moreover have "normdir (''/data/'' @ ''f'') = Inr ''/data/f/''"
    "normdir ''/data/cache/f'' = Inr ''/data/cache/f/''"
    by (simp_all add: normdir_def path_defs)
  ultimately show ?thesis
    using fs_nested_reached delegate_nested_f by simp
qed

text \<open>
  Claim C4, amended: for a mount \<open>(M, B)\<close> of the table and a path whose
  normalised, separator-terminated form starts with \<open>M\<close>, \<^verbatim>\<open>_delegate\<close> returns
  the first entry in insertion order whose mount path that form starts
  with, \<open>(M1, B1)\<close>: it is \<open>(M, B)\<close> itself when no entry registered before
  \<open>(M, B)\<close> matches, and an earlier entry otherwise. The result is
  \<open>(B1, rel)\<close>, where \<open>M1\<close> followed by \<open>rel\<close> is the path after
  normalisation (it normalises to the same form, and is that form up to the
  trailing separator), \<open>rel\<close> has no trailing separator and \<open>rel\<close> does not
  begin with \<open>M1\<close>. The mount paths of the table are those that \<^verbatim>\<open>mount\<close>
  registers: normalised, absolute and separator-terminated.
\<close>

theorem delegate_mounted:
  assumes wf: "\<forall>(m, fs) \<in> set (mounts s). is_mount_path m"
    and n: "normpath path = Inr n"
    and mem: "(M, B) \<in> set (mounts s)"
    and pre: "startswith (forcedir (abspath n)) M"
  shows "\<exists>M1 B1 rel.
    find (\<lambda>(m, fs). startswith (forcedir (abspath n)) m) (mounts s) = Some (M1, B1) \<and>
    (\<forall>i < length (mounts s).
       mounts s ! i = (M, B) \<and>
       (\<forall>j < i. \<not> startswith (forcedir (abspath n)) (fst (mounts s ! j))) \<longrightarrow>
       (M1, B1) = (M, B)) \<and>
    delegate s path = Inr (B1, rel) \<and>
    normdir (M1 @ rel) = normdir path \<and>
    forcedir (M1 @ rel) = forcedir (abspath n) \<and>
    \<not> endswith rel ''/'' \<and>
    \<not> startswith rel M1"
proof -
  let ?q = "forcedir (abspath n)"
  let ?P = "\<lambda>(m, fs). startswith ?q m"
  from mem pre have "find ?P (mounts s) \<noteq> None"
    by (auto simp: find_None_iff)
  then obtain M1 B1 where f: "find ?P (mounts s) = Some (M1, B1)"
    by (cases "find ?P (mounts s)") auto
  from f obtain i0 where i0: "i0 < length (mounts s)" "mounts s ! i0 = (M1, B1)"
    "\<forall>j < i0. \<not> ?P (mounts s ! j)"
    by (auto simp: find_Some_iff)
  have m1: "(M1, B1) \<in> set (mounts s)"
    using i0(1,2) by (metis nth_mem)
  have p1: "startswith ?q M1"
    using f by (auto simp: find_Some_iff)
  have first: "(M1, B1) = (M, B)"
    if i: "i < length (mounts s)" "mounts s ! i = (M, B)"
      and before: "\<forall>j < i. \<not> startswith ?q (fst (mounts s ! j))" for i
  proof -
    have "\<not> i0 < i"
      using before i0(2) p1 by auto
    moreover have "\<not> i < i0"
      using i0(3) i(2) pre by auto
    ultimately have "i = i0"
      by simp
    with i(2) i0(2) show ?thesis
      by simp
  qed
  define rel where "rel = rstrip (drop (length M1) ?q)"
  have d: "delegate s path = Inr (B1, rel)"
    by (simp add: delegate_def n delegate_loop_find f rel_def)
  from normdir_form [OF n] obtain qs where qs: "\<forall>c \<in> set qs. plain c" "?q = CHR ''/'' # dirs qs"
    by blast
  from wf m1 have "is_mount_path M1"
    by auto
  from is_mount_path_form [OF this] obtain ms
    where ms: "\<forall>c \<in> set ms. plain c" "M1 = CHR ''/'' # dirs ms"
    by blast
  have pre': "startswith (CHR ''/'' # dirs qs) (CHR ''/'' # dirs ms)"
    using p1 qs(2) ms(2) by simp
  have rel': "rel = rstrip (drop (length (CHR ''/'' # dirs ms)) (CHR ''/'' # dirs qs))"
    using qs(2) ms(2) by (simp add: rel_def)
  have "normdir path = Inr ?q"
    by (simp add: normdir_def n)
  with relative_path [OF ms(1) qs(1) pre' rel'] qs(2) ms(2)
  have "normdir (M1 @ rel) = normdir path" "forcedir (M1 @ rel) = ?q" "\<not> startswith rel M1"
    by simp_all
  moreover have "\<not> endswith rel ''/''"
    by (simp add: rel_def rstrip_no_trailing)
  moreover have "\<forall>i < length (mounts s).
       mounts s ! i = (M, B) \<and> (\<forall>j < i. \<not> startswith ?q (fst (mounts s ! j))) \<longrightarrow>
       (M1, B1) = (M, B)"
    using first by blast
  ultimately show ?thesis
    using f d by blast
qed

theorem delegate_mounted_witness:
  "mounts fs_data = [(''/data/'', Backend 1)] \<and> is_mount_path ''/data/'' \<and>
   normpath ''/data/x'' = Inr ''/data/x'' \<and>
   startswith (forcedir (abspath ''/data/x'')) ''/data/'' \<and>
   delegate fs_data ''/data/x'' = Inr (Backend 1, ''x'') \<and>
   normdir (''/data/'' @ ''x'') = normdir ''/data/x'' \<and>
   forcedir (''/data/'' @ ''x'') = forcedir (abspath ''/data/x'') \<and>
   \<not> endswith ''x'' ''/'' \<and> \<not> startswith ''x'' ''/data/''"
proof -
  have m: "mounts fs_data = [(''/data/'', Backend 1)]"
    by (simp add: fs_data_eq)
  have p: "is_mount_path ''/data/''"
    by (simp add: is_mount_path_def normdir_def path_defs)
  have wf: "\<forall>(m, fs) \<in> set (mounts fs_data). is_mount_path m"
    using m p by simp
  have n: "normpath ''/data/x'' = Inr ''/data/x''"
    by (simp add: path_defs)
  have mem: "(''/data/'', Backend 1) \<in> set (mounts fs_data)"
    using m by simp
  have q: "forcedir (abspath ''/data/x'') = ''/data/x/''"
    by (simp add: path_defs)
  have pre: "startswith (forcedir (abspath ''/data/x'')) ''/data/''"
    by (simp add: q startswith_def)
  from delegate_mounted [OF wf n mem pre] obtain M1 B1 rel where
    f: "find (\<lambda>(m, fs). startswith (forcedir (abspath ''/data/x'')) m) (mounts fs_data)
          = Some (M1, B1)"
    and l: "\<forall>i < length (mounts fs_data).
       mounts fs_data ! i = (''/data/'', Backend 1) \<and>
       (\<forall>j < i. \<not> startswith (forcedir (abspath ''/data/x'')) (fst (mounts fs_data ! j))) \<longrightarrow>
       (M1, B1) = (''/data/'', Backend 1)"
    and d: "delegate fs_data ''/data/x'' = Inr (B1, rel)"
    and r: "normdir (M1 @ rel) = normdir ''/data/x''"
      "forcedir (M1 @ rel) = forcedir (abspath ''/data/x'')"
      "\<not> endswith rel ''/''" "\<not> startswith rel M1"
    by blast
  from l have "(M1, B1) = (''/data/'', Backend 1)"
    by (simp add: m)
  moreover from d have "rel = ''x''"
    by (simp add: delegate_data_x)
  ultimately show ?thesis
    using m p n pre d r by simp
qed

subsection \<open>Mounting\<close>

text \<open>
  Claim C10: \<^verbatim>\<open>mount\<close> appends the new entry before it asks the default
  filesystem to create the directory. A call that passes the self-mount
  check and the conflict check, and whose \<^verbatim>\<open>makedirs\<close> raises, ends with that
  error and with the new entry in the table.
\<close>

theorem mount_registers_before_makedirs:
  assumes "fs \<noteq> Self" and "normpath path = Inr n"
    and "\<not> overlaps (forcedir (abspath n)) (mounts s)"
    and "backend env (default_fs s) (Makedirs (forcedir (abspath n)) True) = Inl e"
  shows "mount env s path fs =
    (s\<lparr>mounts := mounts s @ [(forcedir (abspath n), fs)]\<rparr>,
     [(default_fs s, Makedirs (forcedir (abspath n)) True)], Inl (BackendError e))"
  using assms by (simp add: mount_def call_backend_def Let_def)

theorem mount_registers_before_makedirs_witness:
  "Backend 1 \<noteq> Self \<and> normpath ''/data'' = Inr ''/data'' \<and>
   \<not> overlaps (forcedir (abspath ''/data'')) (mounts (init True (Backend 0))) \<and>
   backend env_fail_makedirs (default_fs (init True (Backend 0)))
     (Makedirs (forcedir (abspath ''/data'')) True) = Inl 9 \<and>
   mount env_fail_makedirs (init True (Backend 0)) ''/data'' (Backend 1) =
    (\<lparr>auto_close = True, default_fs = Backend 0, mounts = [(''/data/'', Backend 1)],
       closed = False\<rparr>,
     [(Backend 0, Makedirs ''/data/'' True)], Inl (BackendError 9))"
proof -
  have a: "Backend 1 \<noteq> Self"
    by simp
  have b: "normpath ''/data'' = Inr ''/data''"
    by (simp add: path_defs)
  have c: "\<not> overlaps (forcedir (abspath ''/data'')) (mounts (init True (Backend 0)))"
    by (simp add: init_def)
  have d: "backend env_fail_makedirs (default_fs (init True (Backend 0)))
     (Makedirs (forcedir (abspath ''/data'')) True) = Inl 9"
    by (simp add: env_fail_makedirs_def)
  have e: "forcedir (abspath ''/data'') = ''/data/''"
    by (simp add: path_defs)
  from mount_registers_before_makedirs [OF a b c d] a b c d show ?thesis
    by (simp add: e init_def)
qed

lemma init_eq: "init True (Backend 0) =
    \<lparr>auto_close = True, default_fs = Backend 0, mounts = [], closed = False\<rparr>"
  by (simp add: init_def)

lemma normpath_data: "normpath ''/data'' = Inr ''/data''"
  by (simp add: path_defs)

lemma normpath_data_cache: "normpath ''/data/cache'' = Inr ''/data/cache''"
  by (simp add: path_defs)

lemma normdir_data: "forcedir (abspath ''/data'') = ''/data/''"
  by (simp add: path_defs)

lemma normdir_data_cache: "forcedir (abspath ''/data/cache'') = ''/data/cache/''"
  by (simp add: path_defs)

lemma mount_data_cache_first:
  "mount env_ok (init True (Backend 0)) ''/data/cache'' (Backend 1) =
     (\<lparr>auto_close = True, default_fs = Backend 0, mounts = [(''/data/cache/'', Backend 1)],
        closed = False\<rparr>,
      [(Backend 0, Makedirs ''/data/cache/'' True)], Inr ())"
  by (simp add: mount_def normpath_data_cache normdir_data_cache init_eq env_ok_def Let_def
      call_backend_def)

lemma mount_data_second:
  "mount env_ok \<lparr>auto_close = True, default_fs = Backend 0,
       mounts = [(''/data/cache/'', Backend 1)], closed = False\<rparr> ''/data'' (Backend 2) =
     (\<lparr>auto_close = True, default_fs = Backend 0,
        mounts = [(''/data/cache/'', Backend 1), (''/data/'', Backend 2)], closed = False\<rparr>,
      [(Backend 0, Makedirs ''/data/'' True)], Inr ())"
  by (simp add: mount_def normpath_data normdir_data env_ok_def call_backend_def startswith_def
      Let_def)

lemma mount_data_cache_second:
  "mount env_ok fs_data ''/data/cache'' (Backend 2) = (fs_data, [], Inl MountError)"
  by (simp add: mount_def normpath_data_cache normdir_data_cache fs_data_eq startswith_def
      Let_def)

text \<open>
  Claim C3: \<^verbatim>\<open>mount(path, backend)\<close> fails with the mount-conflict error
  exactly when the normalised, separator-terminated form of the path starts
  with the mount path of some existing entry (an equal path included). The
  check is one-directional: mounting at \<^verbatim>\<open>/data\<close> after \<^verbatim>\<open>/data/cache\<close> succeeds,
  mounting at \<^verbatim>\<open>/data/cache\<close> after \<^verbatim>\<open>/data\<close> fails. The backend is a
  filesystem other than the facade itself, and the path is one that can be
  normalised.
\<close>

theorem mount_conflict_iff:
  assumes "fs \<noteq> Self" and "normpath path = Inr n"
  shows "(snd (snd (mount env s path fs)) = Inl MountError) =
           (\<exists>(mount_path, b) \<in> set (mounts s). startswith (forcedir (abspath n)) mount_path) \<and>
         (snd (snd (mount env s path fs)) = Inl MountError) =
           (mount env s path fs = (s, [], Inl MountError)) \<and>
         mount env_ok (fst (mount env_ok (init True (Backend 0)) ''/data/cache'' (Backend 1)))
             ''/data'' (Backend 2) =
           (\<lparr>auto_close = True, default_fs = Backend 0,
              mounts = [(''/data/cache/'', Backend 1), (''/data/'', Backend 2)],
              closed = False\<rparr>,
            [(Backend 0, Makedirs ''/data/'' True)], Inr ()) \<and>
         mount env_ok (fst (mount env_ok (init True (Backend 0)) ''/data'' (Backend 1)))
             ''/data/cache'' (Backend 2) =
           (fst (mount env_ok (init True (Backend 0)) ''/data'' (Backend 1)), [], Inl MountError)"
proof -
  have "(snd (snd (mount env s path fs)) = Inl MountError) =
      overlaps (forcedir (abspath n)) (mounts s)"
    using assms by (simp add: mount_def call_backend_def Let_def split: sum.splits)
  moreover have "overlaps (forcedir (abspath n)) (mounts s) =
      (mount env s path fs = (s, [], Inl MountError))"
    using assms by (auto simp: mount_def call_backend_def Let_def split: sum.splits)
  moreover note overlaps_iff [of "forcedir (abspath n)" "mounts s"]
  moreover have "mount env_ok (fst (mount env_ok (init True (Backend 0)) ''/data/cache''
      (Backend 1))) ''/data'' (Backend 2) =
           (\<lparr>auto_close = True, default_fs = Backend 0,
              mounts = [(''/data/cache/'', Backend 1), (''/data/'', Backend 2)],
              closed = False\<rparr>,
            [(Backend 0, Makedirs ''/data/'' True)], Inr ())"
    by (simp only: mount_data_cache_first fst_conv mount_data_second)
  moreover have "mount env_ok (fst (mount env_ok (init True (Backend 0)) ''/data'' (Backend 1)))
             ''/data/cache'' (Backend 2) =
           (fst (mount env_ok (init True (Backend 0)) ''/data'' (Backend 1)), [], Inl MountError)"
    using mount_data_cache_second by (simp only: fs_data_def)
  ultimately show ?thesis
    by simp
qed

theorem mount_conflict_iff_witness:
  "Backend 2 \<noteq> Self \<and> normpath ''/data/cache'' = Inr ''/data/cache'' \<and>
   mounts fs_data = [(''/data/'', Backend 1)] \<and>
   startswith (forcedir (abspath ''/data/cache'')) ''/data/'' \<and>
   snd (snd (mount env_ok fs_data ''/data/cache'' (Backend 2))) = Inl MountError"
proof -
  have a: "Backend 2 \<noteq> Self"
    by simp
  have m: "mounts fs_data = [(''/data/'', Backend 1)]"
    by (simp add: fs_data_eq)
  have p: "startswith (forcedir (abspath ''/data/cache'')) ''/data/''"
    by (simp add: normdir_data_cache startswith_def)
  from mount_conflict_iff [OF a normpath_data_cache, of env_ok fs_data] m p
  have "snd (snd (mount env_ok fs_data ''/data/cache'' (Backend 2))) = Inl MountError"
    by simp
  with a normpath_data_cache m p show ?thesis
    by simp
qed

subsection \<open>Removing directories\<close>

text \<open>
  Claim C8: on an open facade, \<^verbatim>\<open>removedir\<close> of \<^verbatim>\<open>/\<close>, of the empty path and of
  any path whose normal form is one of the two fails with the root-removal
  error and calls no filesystem; every other directory removal is forwarded
  to the filesystem that the normalised path resolves to, with the path
  that resolution gives.
\<close>

theorem removedir_root:
  assumes "\<not> closed s" and "normpath path = Inr n"
  shows "(if n = '''' \<or> n = ''/'' then removedir env s path = ([], Inl (RemoveRootError n))
          else (\<exists>fs rel. delegate s n = Inr (fs, rel) \<and>
                  removedir env s path =
                    ([(fs, Removedir rel)], call_backend env fs (Removedir rel)))) \<and>
         removedir env s ''/'' = ([], Inl (RemoveRootError ''/'')) \<and>
         removedir env s '''' = ([], Inl (RemoveRootError ''''))"
proof -
  have root: "removedir env s ''/'' = ([], Inl (RemoveRootError ''/''))"
    "removedir env s '''' = ([], Inl (RemoveRootError ''''))"
    using assms(1) by (simp_all add: removedir_def then_do_def check_def normpath_def)
  have r: "removedir env s path =
      (if n = '''' \<or> n = ''/'' then ([], Inl (RemoveRootError n))
       else then_do (delegate s n) (\<lambda>(fs, path'). forward env fs (Removedir path')))"
    using assms by (simp add: removedir_def then_do_def check_def)
  have "\<exists>fs rel. delegate s n = Inr (fs, rel)"
    using normpath_idem [OF assms(2)] by (simp add: delegate_def split: option.splits)
  then obtain fs rel where d: "delegate s n = Inr (fs, rel)"
    by blast
  have "n \<noteq> '''' \<and> n \<noteq> ''/'' \<Longrightarrow>
      removedir env s path = ([(fs, Removedir rel)], call_backend env fs (Removedir rel))"
    by (simp add: r d then_do_def forward_def)
  with r d root show ?thesis
    by auto
qed

theorem removedir_root_witness:
  "\<not> closed fs_data \<and> normpath ''/a/..'' = Inr ''/'' \<and>
   removedir env_ok fs_data ''/a/..'' = ([], Inl (RemoveRootError ''/'')) \<and>
   normpath ''/data/x/'' = Inr ''/data/x'' \<and>
   delegate fs_data ''/data/x'' = Inr (Backend 1, ''x'') \<and>
   removedir env_ok fs_data ''/data/x/'' = ([(Backend 1, Removedir ''x'')], Inr 0)"
proof -
  have o: "\<not> closed fs_data"
    by (simp add: fs_data_open)
  have n1: "normpath ''/a/..'' = Inr ''/''"
    by (simp add: path_defs)
  have n2: "normpath ''/data/x/'' = Inr ''/data/x''"
    by (simp add: path_defs)
  from removedir_root [OF o n1, of env_ok]
  have 1: "removedir env_ok fs_data ''/a/..'' = ([], Inl (RemoveRootError ''/''))"
    by simp
  from removedir_root [OF o n2, of env_ok]
  have 2: "removedir env_ok fs_data ''/data/x/'' = ([(Backend 1, Removedir ''x'')], Inr 0)"
    by (simp add: delegate_data_x call_backend_def env_ok_def)
  from o n1 n2 1 2 delegate_data_x show ?thesis
    by simp
qed

subsection \<open>The order of the mount table\<close>

lemma ordered_mounts_append:
  "ordered_mounts (ms @ [(p, fs)]) =
     (ordered_mounts ms \<and> (\<forall>(m, b) \<in> set ms. \<not> startswith p m))"
  by (induction ms) auto

lemma mount_ordered:
  assumes "ordered_mounts (mounts s)"
  shows "ordered_mounts (mounts (fst (mount env s path fs)))"
proof (cases "fs = Self")
  case True
  with assms show ?thesis by (simp add: mount_def)
next
  case False
  show ?thesis
  proof (cases "normpath path")
    case (Inl e)
    with assms False show ?thesis by (simp add: mount_def)
  next
    case (Inr n)
    show ?thesis
    proof (cases "overlaps (forcedir (abspath n)) (mounts s)")
      case True
      with assms False Inr show ?thesis by (simp add: mount_def)
    next
      case no: False
      then have "\<forall>(m, b) \<in> set (mounts s). \<not> startswith (forcedir (abspath n)) m"
        by (auto simp: overlaps_iff)
      with assms have "ordered_mounts (mounts s @ [(forcedir (abspath n), fs)])"
        by (simp add: ordered_mounts_append)
      with False Inr no show ?thesis
        by (simp add: mount_def Let_def split: sum.splits)
    qed
  qed
qed

lemma mount_all_ordered:
  "mount_all env s calls = Some s' \<Longrightarrow> ordered_mounts (mounts s) \<Longrightarrow> ordered_mounts (mounts s')"
proof (induction calls arbitrary: s)
  case Nil
  then show ?case by simp
next
  case (Cons c calls)
  obtain path fs where c: "c = (path, fs)"
    by (cases c)
  obtain s1 tr res where m: "mount env s path fs = (s1, tr, res)"
    by (cases "mount env s path fs")
  with Cons.prems(1) c have "mount_all env s1 calls = Some s'"
    by (simp split: sum.splits)
  moreover have "ordered_mounts (mounts s1)"
    using mount_ordered [OF Cons.prems(2), of env path fs] m by simp
  ultimately show ?case
    by (rule Cons.IH)
qed

lemma ordered_mounts_nth:
  "ordered_mounts ms \<Longrightarrow> i < j \<Longrightarrow> j < length ms \<Longrightarrow>
   \<not> startswith (fst (ms ! j)) (fst (ms ! i))"
proof (induction ms arbitrary: i j)
  case Nil
  then show ?case by simp
next
  case (Cons e ms)
  obtain m fs where e: "e = (m, fs)"
    by (cases e)
  from Cons.prems(2) obtain j' where j: "j = Suc j'"
    by (cases j) auto
  show ?case
  proof (cases i)
    case 0
    have "ms ! j' \<in> set ms"
      using Cons.prems(3) j by simp
    with Cons.prems(1) e have "\<not> startswith (fst (ms ! j')) m"
      by (cases "ms ! j'") auto
    with 0 j e show ?thesis by simp
  next
    case (Suc i')
    with Cons.IH [of i' j'] Cons.prems e j show ?thesis
      by simp
  qed
qed

lemma mount_all_data_cache_data:
  "mount_all env_ok (init True (Backend 0)) [(''/data/cache'', Backend 1), (''/data'', Backend 2)] =
     Some \<lparr>auto_close = True, default_fs = Backend 0,
            mounts = [(''/data/cache/'', Backend 1), (''/data/'', Backend 2)], closed = False\<rparr>"
  by (simp only: mount_all.simps mount_data_cache_first mount_data_second prod.case sum.case)

text \<open>
  Claim C6, as stated: in a table reached by successful \<^verbatim>\<open>mount\<close> calls no
  mount path is a prefix of another one, in either direction. Mounting at
  \<^verbatim>\<open>/data/cache\<close> and then at \<^verbatim>\<open>/data\<close> succeeds twice, and the second mount
  path is a prefix of the first.
\<close>

theorem mounts_prefix_free_counterexample:
  "mount_all env_ok (init True (Backend 0)) [(''/data/cache'', Backend 1), (''/data'', Backend 2)] =
     Some \<lparr>auto_close = True, default_fs = Backend 0,
            mounts = [(''/data/cache/'', Backend 1), (''/data/'', Backend 2)], closed = False\<rparr> \<and>
   startswith ''/data/cache/'' ''/data/''"
  by (rule conjI [OF mount_all_data_cache_data]) (simp add: startswith_def)

text \<open>
  Claim C6, amended: in a table reached by successful \<^verbatim>\<open>mount\<close> calls no
  mount path starts with the mount path of an entry registered before it.
\<close>

theorem mounts_ordered:
  assumes "mount_all env (init ac d) calls = Some s" and "i < j" and "j < length (mounts s)"
  shows "\<not> startswith (fst (mounts s ! j)) (fst (mounts s ! i))"
proof -
  have "ordered_mounts (mounts (init ac d))"
    by (simp add: init_def)
  with assms(1) have "ordered_mounts (mounts s)"
    by (rule mount_all_ordered)
  then show ?thesis
    using assms(2,3) by (rule ordered_mounts_nth)
qed

theorem mounts_ordered_witness:
  "mount_all env_ok (init True (Backend 0)) [(''/data/cache'', Backend 1), (''/data'', Backend 2)] =
     Some \<lparr>auto_close = True, default_fs = Backend 0,
            mounts = [(''/data/cache/'', Backend 1), (''/data/'', Backend 2)], closed = False\<rparr> \<and>
   \<not> startswith ''/data/'' ''/data/cache/''"
proof -
  let ?s = "\<lparr>auto_close = True, default_fs = Backend 0,
            mounts = [(''/data/cache/'', Backend 1), (''/data/'', Backend 2)], closed = False\<rparr>"
  have m: "mount_all env_ok (init True (Backend 0))
      [(''/data/cache'', Backend 1), (''/data'', Backend 2)] = Some ?s"
    by (rule mount_all_data_cache_data)
  have "(0::nat) < 1" "1 < length (mounts ?s)"
    by simp_all
  from mounts_ordered [OF m this] have "\<not> startswith ''/data/'' ''/data/cache/''"
    by simp
  with m show ?thesis
    by simp
qed

subsection \<open>Closing\<close>

lemma fs_two_eq:
  "fs_two = \<lparr>auto_close = True, default_fs = Backend 0,
     mounts = [(''/a/'', Backend 1), (''/b/'', Backend 2)], closed = False\<rparr>"
  by (simp add: fs_two_def mount_def init_def env_ok_def call_backend_def path_defs Let_def)

text \<open>The loop of \<^verbatim>\<open>close\<close> stops at the first filesystem whose \<^verbatim>\<open>close\<close> raises.\<close>

lemma close_mounts_eq:
  "close_mounts env ms =
     (case find (\<lambda>(p, fs). isl (backend env fs Close)) ms of
        None \<Rightarrow> (map (\<lambda>(p, fs). (fs, Close)) ms, Inr ())
      | Some (p, fs) \<Rightarrow>
          (map (\<lambda>(p, fs). (fs, Close))
             (takeWhile (\<lambda>(p, fs). \<not> isl (backend env fs Close)) ms) @ [(fs, Close)],
           Inl (BackendError (projl (backend env fs Close)))))"
proof (induction ms)
  case Nil
  then show ?case by simp
next
  case (Cons e ms)
  obtain p fs where e: "e = (p, fs)"
    by (cases e)
  show ?case
  proof (cases "backend env fs Close")
    case (Inl x)
    with e show ?thesis by (simp add: call_backend_def)
  next
    case (Inr r)
    with e Cons show ?thesis
      by (simp add: call_backend_def split: option.splits)
  qed
qed

text \<open>
  Claim C7, as stated: \<^verbatim>\<open>close\<close> with \<^verbatim>\<open>auto_close\<close> closes every mounted
  filesystem, clears the table, closes the default filesystem and marks the
  facade closed, also when closing a mounted filesystem raises. With two
  mounts, the first of which raises on \<^verbatim>\<open>close\<close>, the only call made is that
  first \<^verbatim>\<open>close\<close>: the error propagates, and the facade is left as it was, its
  table intact and its closed flag unset.
\<close>

theorem close_failure_counterexample:
  "auto_close fs_two \<and> mounts fs_two = [(''/a/'', Backend 1), (''/b/'', Backend 2)] \<and>
   default_fs fs_two = Backend 0 \<and> closed fs_two = False \<and>
   backend env_fail_close (Backend 1) Close = Inl 7 \<and>
   close env_fail_close fs_two = (fs_two, [(Backend 1, Close)], Inl (BackendError 7))"
proof -
  have "close env_fail_close fs_two = (fs_two, [(Backend 1, Close)], Inl (BackendError 7))"
    by (simp add: close_def fs_two_eq env_fail_close_def call_backend_def)
  then show ?thesis
    by (simp add: fs_two_eq env_fail_close_def)
qed

text \<open>
  Claim C7, amended: \<^verbatim>\<open>close\<close> with \<^verbatim>\<open>auto_close\<close> closes the mounted
  filesystems in mount order. If none of these calls raises, it clears the
  table and closes the default filesystem, and if that call does not raise
  either, it marks the facade closed. If closing a mounted filesystem
  raises, the error propagates at once: the filesystems mounted after it
  and the default filesystem are not closed, the table is not cleared and
  the facade is not marked closed.
\<close>

theorem close_cascade:
  assumes "auto_close s"
  shows "close env s =
    (case find (\<lambda>(p, fs). isl (backend env fs Close)) (mounts s) of
       None \<Rightarrow>
         (case backend env (default_fs s) Close of
            Inl e \<Rightarrow>
              (s\<lparr>mounts := []\<rparr>,
               map (\<lambda>(p, fs). (fs, Close)) (mounts s) @ [(default_fs s, Close)],
               Inl (BackendError e))
          | Inr r \<Rightarrow>
              (s\<lparr>mounts := [], closed := True\<rparr>,
               map (\<lambda>(p, fs). (fs, Close)) (mounts s) @ [(default_fs s, Close)],
               Inr ()))
     | Some (p, fs) \<Rightarrow>
         (s,
          map (\<lambda>(p, fs). (fs, Close))
            (takeWhile (\<lambda>(p, fs). \<not> isl (backend env fs Close)) (mounts s)) @ [(fs, Close)],
          Inl (BackendError (projl (backend env fs Close)))))"
  using assms
  by (simp add: close_def close_mounts_eq call_backend_def super_close_def
      split: option.splits sum.splits)

theorem close_cascade_witness:
  "auto_close fs_two \<and> mounts fs_two = [(''/a/'', Backend 1), (''/b/'', Backend 2)] \<and>
   close env_ok fs_two =
     (\<lparr>auto_close = True, default_fs = Backend 0, mounts = [], closed = True\<rparr>,
      [(Backend 1, Close), (Backend 2, Close), (Backend 0, Close)], Inr ())"
proof -
  have a: "auto_close fs_two"
    by (simp add: fs_two_eq)
  from close_cascade [OF a, of env_ok]
  have "close env_ok fs_two =
     (\<lparr>auto_close = True, default_fs = Backend 0, mounts = [], closed = True\<rparr>,
      [(Backend 1, Close), (Backend 2, Close), (Backend 0, Close)], Inr ())"
    by (simp add: fs_two_eq env_ok_def)
  with a show ?thesis
    by (simp add: fs_two_eq)
qed

subsection \<open>What the table holds\<close>

text \<open>
  Every mount path that \<^verbatim>\<open>mount\<close> registers is a normalised, absolute,
  separator-terminated path, whatever the outcome of the call; \<^verbatim>\<open>close\<close>
  registers none.
\<close>

lemma mount_keeps_mount_paths:
  assumes "\<forall>(m, b) \<in> set (mounts s). is_mount_path m"
  shows "\<forall>(m, b) \<in> set (mounts (fst (mount env s path fs))). is_mount_path m"
proof (cases "normpath path")
  case (Inl e)
  with assms show ?thesis by (simp add: mount_def)
next
  case (Inr n)
  from is_mount_path_normdir [OF this] assms Inr show ?thesis
    by (auto simp: mount_def Let_def split: sum.splits)
qed

lemma mount_all_mount_paths:
  "mount_all env s calls = Some s' \<Longrightarrow> \<forall>(m, b) \<in> set (mounts s). is_mount_path m \<Longrightarrow>
   \<forall>(m, b) \<in> set (mounts s'). is_mount_path m"
proof (induction calls arbitrary: s)
  case Nil
  then show ?case by simp
next
  case (Cons c calls)
  obtain path fs where c: "c = (path, fs)"
    by (cases c)
  obtain s1 tr res where m: "mount env s path fs = (s1, tr, res)"
    by (cases "mount env s path fs")
  with Cons.prems(1) c have "mount_all env s1 calls = Some s'"
    by (simp split: sum.splits)
  moreover have "\<forall>(m, b) \<in> set (mounts s1). is_mount_path m"
    using mount_keeps_mount_paths [OF Cons.prems(2), of env path fs] m by simp
  ultimately show ?case
    by (rule Cons.IH)
qed

lemma close_keeps_mount_paths:
  assumes "\<forall>(m, b) \<in> set (mounts s). is_mount_path m"
  shows "\<forall>(m, b) \<in> set (mounts (fst (close env s))). is_mount_path m"
proof (cases "close_mounts env (mounts s)")
  case (Pair tr res)
  with assms show ?thesis
    by (cases res) (auto simp: close_def super_close_def split: sum.splits)
qed

subsection \<open>The operations that follow the contract\<close>

text \<open>
  On an open facade, an operation of this list sends one request, to the
  filesystem that the path resolves to, with the path that resolution gives
  and the caller's other arguments.
\<close>

lemma relative_forwarding:
  assumes "\<not> closed s" and "delegate s path = Inr (fs, rel)"
  shows "getinfo env s path namespaces = forward env fs (Getinfo rel namespaces)"
    and "listdir env s path = forward env fs (Listdir rel)"
    and "makedir env s path permissions recreate = forward env fs (Makedir rel permissions recreate)"
    and "remove env s path = forward env fs (Remove rel)"
    and "getbytes env s path = forward env fs (Getbytes rel)"
    and "gettext env s path encoding errors newline =
           forward env fs (Gettext rel encoding errors newline)"
    and "gettype env s path = forward env fs (Gettype rel)"
    and "hasurl env s path = forward env fs (Hasurl rel)"
    and "isdir env s path = forward env fs (Isdir rel)"
    and "isfile env s path = forward env fs (Isfile rel)"
    and "scandir env s path ns = forward env fs (Scandir rel ns)"
    and "validatepath env s path = forward env fs (Validatepath rel)"
    and "settext env s path contents encoding errors newline =
           forward env fs (Settext rel contents encoding errors newline)"
    and "open_mode_ok env mode \<Longrightarrow>
         open_file env s path mode buffering encoding errors newline options =
           forward env fs (Open rel mode buffering encoding errors newline options)"
  using assms
  by (simp_all add: getinfo_def listdir_def makedir_def remove_def getbytes_def gettext_def
      gettype_def hasurl_def isdir_def isfile_def scandir_def validatepath_def settext_def
      open_file_def validate_open_mode_def then_do_def check_def)

text \<open>On a closed facade, an operation that starts with the check fails there.\<close>

lemma closed_check:
  assumes "closed s"
  shows "getinfo env s path namespaces = ([], Inl FilesystemClosed)"
    and "listdir env s path = ([], Inl FilesystemClosed)"
    and "makedir env s path permissions recreate = ([], Inl FilesystemClosed)"
    and "remove env s path = ([], Inl FilesystemClosed)"
    and "removedir env s path = ([], Inl FilesystemClosed)"
    and "getbytes env s path = ([], Inl FilesystemClosed)"
    and "gettext env s path encoding errors newline = ([], Inl FilesystemClosed)"
    and "getsize env s path = ([], Inl FilesystemClosed)"
    and "getsyspath env s path = ([], Inl FilesystemClosed)"
    and "gettype env s path = ([], Inl FilesystemClosed)"
    and "geturl env s path = ([], Inl FilesystemClosed)"
    and "hasurl env s path = ([], Inl FilesystemClosed)"
    and "isdir env s path = ([], Inl FilesystemClosed)"
    and "isfile env s path = ([], Inl FilesystemClosed)"
    and "scandir env s path ns = ([], Inl FilesystemClosed)"
    and "setinfo env s path info = ([], Inl FilesystemClosed)"
    and "validatepath env s path = ([], Inl FilesystemClosed)"
    and "setbytes env s path contents = ([], Inl FilesystemClosed)"
    and "open_mode_ok env mode \<Longrightarrow>
         open_file env s path mode buffering encoding errors newline options =
           ([], Inl FilesystemClosed)"
    and "openbin_mode_ok env mode \<Longrightarrow>
         openbin env s path mode buffering kw = ([], Inl FilesystemClosed)"
  using assms
  by (simp_all add: getinfo_def listdir_def makedir_def remove_def removedir_def getbytes_def
      gettext_def getsize_def getsyspath_def gettype_def geturl_def hasurl_def isdir_def
      isfile_def scandir_def setinfo_def validatepath_def setbytes_def open_file_def openbin_def
      validate_open_mode_def validate_openbin_mode_def then_do_def check_def)


end
